theory Spec2Isabelle
  imports Main "HOL-Library.Sublist"
begin

section \<open>Git Commit Helper: the commit message composer of commithelp.py\<close>

text \<open>
  A Python \<open>str\<close> is modelled as a \<open>string\<close>, a list of \<open>char\<close>. A \<open>char\<close> has eight
  bits and stands for the code point of the same number (U+0000 to U+00FF), so \<open>length\<close>
  is Python's \<open>len\<close> on such strings. The library functions the program calls
  (\<open>str.join\<close>, \<open>str.strip\<close>, \<open>str.lower\<close>, \<open>int\<close>) are written out for these code
  points. What the program prints is not modelled; what it reads, what it passes to
  \<open>subprocess.run\<close> and how the process ends are.
\<close>

subsection \<open>The table of commit types\<close>

text \<open>The dictionary \<open>COMMIT_TYPES\<close>, in the order of its keys.\<close>

definition COMMIT_TYPES :: "(string \<times> string) list" where
  "COMMIT_TYPES =
    [(''feat'', ''A new feature''),
     (''fix'', ''A bug fix''),
     (''docs'', ''Documentation only changes''),
     (''style'', ''Changes that do not affect the meaning of the code''),
     (''refactor'', ''A code change that neither fixes a bug nor adds a feature''),
     (''perf'', ''A code change that improves performance''),
     (''test'', ''Adding missing tests or correcting existing tests''),
     (''chore'', ''Changes to the build process or auxiliary tools''),
     (''build'', ''Changes that affect the build system or external dependencies''),
     (''ci'', ''Changes to CI configuration files and scripts''),
     (''revert'', ''Reverts a previous commit'')]"

text \<open>\<open>list(COMMIT_TYPES.keys())\<close>, the local \<open>types\<close> of \<open>select_type\<close>.\<close>

definition keys :: "(string \<times> string) list \<Rightarrow> string list" where
  "keys d = map fst d"

subsection \<open>The draft\<close>

text \<open>The fields of a \<open>CommitHelper\<close> object, and the object \<open>__init__\<close> makes.\<close>

record CommitHelper =
  type :: string
  scope :: string
  description :: string
  body :: string
  breaking :: bool

definition init :: CommitHelper where
  "init = \<lparr>type = [], scope = [], description = [], body = [], breaking = False\<rparr>"

subsection \<open>Assembling the message\<close>

text \<open>\<open>sep.join(parts)\<close>.\<close>

fun join :: "string \<Rightarrow> string list \<Rightarrow> string" where
  "join sep [] = []"
| "join sep [x] = x"
| "join sep (x # y # ys) = x @ sep @ join sep (y # ys)"

definition BREAKING_PARAGRAPH :: string where
  "BREAKING_PARAGRAPH = ''BREAKING CHANGE: This commit introduces breaking changes.''"

text \<open>
  \<open>build_message\<close>, in its two steps. First the local \<open>header\<close>: the type, the scope
  in parentheses when there is one, the mark \<open>!\<close> when the change is breaking, then a
  colon, a space and the description.
\<close>

definition header :: "CommitHelper \<Rightarrow> string" where
  "header self =
    (let h = type self;
         h = (if scope self \<noteq> [] then h @ ''('' @ scope self @ '')'' else h);
         h = (if breaking self then h @ ''!'' else h)
     in h @ '': '' @ description self)"

text \<open>
  Then the list \<open>parts\<close>: the header, an empty string and the body when there is a body,
  an empty string and the breaking-change paragraph when the change is breaking; the
  message is the parts joined by line feeds.
\<close>

definition build_message :: "CommitHelper \<Rightarrow> string" where
  "build_message self =
    (let parts = [header self];
         parts = (if body self \<noteq> [] then parts @ [ [], body self] else parts);
         parts = (if breaking self then parts @ [ [], BREAKING_PARAGRAPH] else parts)
     in join ''\<newline>'' parts)"

text \<open>The first line of a text: what stands before its first line feed.\<close>

definition first_line :: "string \<Rightarrow> string" where
  "first_line s = takeWhile (\<lambda>c. c \<noteq> CHR ''\<newline>'') s"

subsection \<open>Library functions on strings\<close>

text \<open>
  \<open>str.isspace\<close> on one character. Of the code points below 256, Python counts as white
  space the controls 9 to 13 and 28 to 31, the space, U+0085 and U+00A0.
\<close>

definition isspace :: "char \<Rightarrow> bool" where
  "isspace c \<longleftrightarrow>
     c \<in> set [CHR 0x09, CHR 0x0A, CHR 0x0B, CHR 0x0C, CHR 0x0D, CHR 0x1C, CHR 0x1D,
              CHR 0x1E, CHR 0x1F, CHR 0x20, CHR 0x85, CHR 0xA0]"

text \<open>\<open>s.strip()\<close>: the white space at both ends is dropped.\<close>

definition strip :: "string \<Rightarrow> string" where
  "strip s = rev (dropWhile isspace (rev (dropWhile isspace s)))"

text \<open>
  \<open>s.lower()\<close>. Below 256 the capital letters are A to Z and U+00C0 to U+00DE without
  the multiplication sign U+00D7; the small letter lies 32 code points higher.
\<close>

definition lower_char :: "char \<Rightarrow> char" where
  "lower_char c =
     (let n = (of_char c :: nat)
      in if (65 \<le> n \<and> n \<le> 90) \<or> (192 \<le> n \<and> n \<le> 222 \<and> n \<noteq> 215)
         then char_of (n + 32) else c)"

definition lower :: "string \<Rightarrow> string" where
  "lower s = map lower_char s"

text \<open>
  \<open>int(s)\<close> for a string. White space at both ends is dropped; for \<open>int\<close> this is the
  space, the controls 9 to 13, U+0085 and U+00A0, but not the controls 28 to 31. A sign may
  come first, then decimal digits, where one underscore may stand between two digits. A
  string with more digits than the interpreter's bound, 4300 unless it is reconfigured,
  is refused. Every refusal raises \<open>ValueError\<close>, which is the result \<open>None\<close> here.
\<close>

definition int_space :: "char \<Rightarrow> bool" where
  "int_space c \<longleftrightarrow>
     c \<in> set [CHR 0x09, CHR 0x0A, CHR 0x0B, CHR 0x0C, CHR 0x0D, CHR 0x20, CHR 0x85, CHR 0xA0]"

definition max_str_digits :: nat where
  "max_str_digits = 4300"

definition is_digit :: "char \<Rightarrow> bool" where
  "is_digit c \<longleftrightarrow> c \<in> set ''0123456789''"

definition digit_val :: "char \<Rightarrow> nat" where
  "digit_val c = of_char c - 48"

fun digits_after :: "nat \<Rightarrow> string \<Rightarrow> nat option" where
  "digits_after acc [] = Some acc"
| "digits_after acc [c] =
     (if is_digit c then Some (10 * acc + digit_val c) else None)"
| "digits_after acc (c # d # cs) =
     (if is_digit c then digits_after (10 * acc + digit_val c) (d # cs)
      else if c = CHR ''_'' \<and> is_digit d then digits_after (10 * acc + digit_val d) cs
      else None)"

definition digits :: "string \<Rightarrow> nat option" where
  "digits s =
     (case s of
        [] \<Rightarrow> None
      | c # cs \<Rightarrow>
          if \<not> is_digit c then None
          else if length (filter is_digit s) > max_str_digits then None
          else digits_after (digit_val c) cs)"

definition py_int :: "string \<Rightarrow> int option" where
  "py_int s =
     (case rev (dropWhile int_space (rev (dropWhile int_space s))) of
        [] \<Rightarrow> None
      | c # cs \<Rightarrow>
          if c = CHR ''-'' then map_option (\<lambda>n. - int n) (digits cs)
          else if c = CHR ''+'' then map_option int (digits cs)
          else map_option int (digits (c # cs)))"

subsection \<open>The console and the external tool\<close>

text \<open>
  What the program reads. One call of \<open>input()\<close> takes the next event from the list: a
  line (without its line feed) or the user's interrupt, for which \<open>input\<close> raises
  \<open>KeyboardInterrupt\<close>. At the end of the list the input is exhausted and \<open>input\<close> raises
  \<open>EOFError\<close>.
\<close>

datatype inp = Line string | Interrupt

text \<open>
  The exceptions that leave a function: \<open>sys.exit(n)\<close> raises \<open>SystemExit\<close> with the exit
  status \<open>n\<close>, the other two are not caught anywhere above \<open>select_type\<close>.
\<close>

datatype abort = SysExit int | KeyboardInterrupt | EOFError

text \<open>
  A function that reads returns its value, or the exception it raises, together with
  the input left unread.
\<close>

type_synonym 'a reading = "(abort + 'a) \<times> inp list"

fun input :: "inp list \<Rightarrow> string reading" where
  "input [] = (Inl EOFError, [])"
| "input (Interrupt # rest) = (Inl KeyboardInterrupt, rest)"
| "input (Line l # rest) = (Inr l, rest)"

text \<open>Sequencing: the second function runs on what the first left, unless the first raised.\<close>

definition then_read :: "'a reading \<Rightarrow> ('a \<Rightarrow> inp list \<Rightarrow> 'b reading) \<Rightarrow> 'b reading" where
  "then_read m f = (case m of (Inl e, rest) \<Rightarrow> (Inl e, rest) | (Inr x, rest) \<Rightarrow> f x rest)"

text \<open>
  The external tool: what \<open>subprocess.run(argv, check=True)\<close> does for an argument
  vector. It returns, or raises one of the two exceptions the program catches.
\<close>

datatype proc = Completed | CalledProcessError | FileNotFoundError

type_synonym argv = "string list"

subsection \<open>The prompts\<close>

text \<open>
  \<open>select_type\<close>. The loop reads an entry, strips it and converts it with \<open>int\<close>. An index
  within the table returns the type; a number outside it prompts again; an entry that
  \<open>int\<close> refuses (\<open>ValueError\<close>) and an interrupt both reach the handler, which exits with
  status 1.
\<close>

fun select_type :: "inp list \<Rightarrow> string reading" where
  "select_type [] = (Inl EOFError, [])"
| "select_type (Interrupt # rest) = (Inl (SysExit 1), rest)"
| "select_type (Line l # rest) =
     (case py_int (strip l) of
        None \<Rightarrow> (Inl (SysExit 1), rest)
      | Some n \<Rightarrow>
          (let idx = n - 1
           in if 0 \<le> idx \<and> idx < int (length (keys COMMIT_TYPES))
              then (Inr (keys COMMIT_TYPES ! nat idx), rest)
              else select_type rest))"

text \<open>\<open>get_scope\<close>: one stripped line.\<close>

definition get_scope :: "inp list \<Rightarrow> string reading" where
  "get_scope ins = then_read (input ins) (\<lambda>l rest. (Inr (strip l), rest))"

text \<open>
  \<open>get_description\<close>. A non-empty stripped entry of at most 72 characters is returned; a
  longer one is returned when the answer to the confirmation, stripped and in lower case,
  is \<open>y\<close>; in every other case the loop prompts again.
\<close>

fun get_description :: "inp list \<Rightarrow> string reading" where
  "get_description [] = (Inl EOFError, [])"
| "get_description (Interrupt # rest) = (Inl KeyboardInterrupt, rest)"
| "get_description (Line l # rest) =
     (if strip l \<noteq> [] then
        (if length (strip l) > 72 then
           (case rest of
              [] \<Rightarrow> (Inl EOFError, [])
            | Interrupt # rest' \<Rightarrow> (Inl KeyboardInterrupt, rest')
            | Line c # rest' \<Rightarrow>
                if lower (strip c) = ''y'' then (Inr (strip l), rest')
                else get_description rest')
         else (Inr (strip l), rest))
      else get_description rest)"

text \<open>
  \<open>get_body\<close>: lines are collected until an empty one, and joined by line feeds.
\<close>

fun get_body_lines :: "string list \<Rightarrow> inp list \<Rightarrow> (string list) reading" where
  "get_body_lines lines [] = (Inl EOFError, [])"
| "get_body_lines lines (Interrupt # rest) = (Inl KeyboardInterrupt, rest)"
| "get_body_lines lines (Line l # rest) =
     (if l = [] then (Inr lines, rest) else get_body_lines (lines @ [l]) rest)"

definition get_body :: "inp list \<Rightarrow> string reading" where
  "get_body ins = then_read (get_body_lines [] ins) (\<lambda>lines rest. (Inr (join ''\<newline>'' lines), rest))"

text \<open>\<open>check_breaking\<close>: true exactly when the stripped answer in lower case is \<open>y\<close>.\<close>

definition check_breaking :: "inp list \<Rightarrow> bool reading" where
  "check_breaking ins = then_read (input ins) (\<lambda>l rest. (Inr (lower (strip l) = ''y''), rest))"

subsection \<open>Committing\<close>

text \<open>
  \<open>execute_commit\<close>: one call of the external tool with the message as one argument. The
  result is paired with the list of the argument vectors passed to \<open>subprocess.run\<close>.
\<close>

definition execute_commit :: "(argv \<Rightarrow> proc) \<Rightarrow> string \<Rightarrow> bool \<times> argv list" where
  "execute_commit run message =
     (let cmd = [''git'', ''commit'', ''-m'', message]
      in case run cmd of
           Completed \<Rightarrow> (True, [cmd])
         | CalledProcessError \<Rightarrow> (False, [cmd])
         | FileNotFoundError \<Rightarrow> (False, [cmd]))"

text \<open>
  The first five statements of \<open>interactive_commit\<close>, which fill the fields of the object
  from the prompts. The result is the object on which \<open>build_message\<close> is then called.
\<close>

definition interactive_fields :: "inp list \<Rightarrow> CommitHelper reading" where
  "interactive_fields ins =
     then_read (select_type ins) (\<lambda>t ins.
     then_read (get_scope ins) (\<lambda>s ins.
     then_read (get_description ins) (\<lambda>d ins.
     then_read (get_body ins) (\<lambda>b ins.
     then_read (check_breaking ins) (\<lambda>br ins.
       (Inr (init\<lparr>type := t, scope := s, description := d, body := b, breaking := br\<rparr>),
        ins))))))"

text \<open>
  What a run leaves behind, besides its result: the argument vectors passed to
  \<open>subprocess.run\<close> and the objects on which \<open>build_message\<close> was called, both in order.
\<close>

record trace =
  calls :: "argv list"
  built :: "CommitHelper list"

text \<open>
  \<open>interactive_commit\<close>: the fields, the message, and the commit when the answer to the
  last prompt, stripped and in lower case, is \<open>y\<close>.
\<close>

definition interactive_commit :: "(argv \<Rightarrow> proc) \<Rightarrow> inp list \<Rightarrow> bool reading \<times> trace" where
  "interactive_commit run ins =
     (case interactive_fields ins of
        (Inl e, rest) \<Rightarrow> ((Inl e, rest), \<lparr>calls = [], built = []\<rparr>)
      | (Inr self, rest) \<Rightarrow>
          (let message = build_message self
           in case input rest of
                (Inl e, rest') \<Rightarrow> ((Inl e, rest'), \<lparr>calls = [], built = [self]\<rparr>)
              | (Inr confirm, rest') \<Rightarrow>
                  if lower (strip confirm) = ''y''
                  then (case execute_commit run message of
                          (ok, cs) \<Rightarrow> ((Inr ok, rest'), \<lparr>calls = cs, built = [self]\<rparr>))
                  else ((Inr False, rest'), \<lparr>calls = [], built = [self]\<rparr>)))"

text \<open>
  \<open>quick_commit\<close>. The object it fills: a fresh one with the type, the scope (\<open>scope or ""\<close>)
  and the description; body and breaking flag stay as \<open>__init__\<close> set them.
\<close>

definition quick_fields :: "string \<Rightarrow> string \<Rightarrow> string option \<Rightarrow> CommitHelper" where
  "quick_fields commit_type desc scope_opt =
     init\<lparr>type := commit_type,
          scope := (case scope_opt of None \<Rightarrow> [] | Some s \<Rightarrow> if s \<noteq> [] then s else []),
          description := desc\<rparr>"

definition quick_commit ::
  "(argv \<Rightarrow> proc) \<Rightarrow> string \<Rightarrow> string \<Rightarrow> string option \<Rightarrow> bool \<times> trace" where
  "quick_commit run commit_type desc scope_opt =
     (let helper = quick_fields commit_type desc scope_opt;
          message = build_message helper
      in case execute_commit run message of
           (ok, cs) \<Rightarrow> (ok, \<lparr>calls = cs, built = [helper]\<rparr>))"

text \<open>\<open>show_status\<close>: one call of the external tool, whatever its result.\<close>

definition show_status :: "(argv \<Rightarrow> proc) \<Rightarrow> argv list" where
  "show_status run =
     (let cmd = [''git'', ''status'', ''--short'']
      in case run cmd of
           Completed \<Rightarrow> [cmd]
         | CalledProcessError \<Rightarrow> [cmd]
         | FileNotFoundError \<Rightarrow> [cmd])"

subsection \<open>The entry point\<close>

text \<open>
  The parsed command line: \<open>-q TYPE DESC\<close>, \<open>-s SCOPE\<close>, \<open>--status\<close> and \<open>--types\<close>.
\<close>

record args =
  args_quick :: "(string \<times> string) option"
  args_scope :: "string option"
  args_status :: bool
  args_types :: bool

text \<open>
  How the process ends (\<open>None\<close>: \<open>main\<close> returns, so the exit status is 0; otherwise the
  exception that ends it, \<open>SysExit n\<close> giving the status \<open>n\<close>), what it did, and the input
  it did not read.
\<close>

record outcome =
  raised :: "abort option"
  did :: trace
  unread :: "inp list"

text \<open>
  \<open>main\<close> after \<open>parse_args\<close>: the two flags first, then the quick commit, whose type must
  be a key of the table, then the interactive mode.
\<close>

definition main :: "(argv \<Rightarrow> proc) \<Rightarrow> args \<Rightarrow> inp list \<Rightarrow> outcome" where
  "main run a ins =
     (if args_status a then
        \<lparr>raised = None, did = \<lparr>calls = show_status run, built = []\<rparr>, unread = ins\<rparr>
      else if args_types a then
        \<lparr>raised = None, did = \<lparr>calls = [], built = []\<rparr>, unread = ins\<rparr>
      else case args_quick a of
        Some (commit_type, desc) \<Rightarrow>
          if commit_type \<notin> set (keys COMMIT_TYPES) then
            \<lparr>raised = Some (SysExit 1), did = \<lparr>calls = [], built = []\<rparr>, unread = ins\<rparr>
          else (case quick_commit run commit_type desc (args_scope a) of
                  (ok, tr) \<Rightarrow>
                    \<lparr>raised = Some (SysExit (if ok then 0 else 1)), did = tr, unread = ins\<rparr>)
      | None \<Rightarrow>
          (case interactive_commit run ins of
             ((Inl e, rest), tr) \<Rightarrow> \<lparr>raised = Some e, did = tr, unread = rest\<rparr>
           | ((Inr ok, rest), tr) \<Rightarrow>
               \<lparr>raised = Some (SysExit (if ok then 0 else 1)), did = tr, unread = rest\<rparr>))"

section \<open>Properties of the message\<close>

subsection \<open>Auxiliary facts\<close>

lemma build_message_eq:
  "build_message d =
     header d @ (if body d \<noteq> [] then ''\<newline>\<newline>'' @ body d else [])
              @ (if breaking d then ''\<newline>\<newline>'' @ BREAKING_PARAGRAPH else [])"
  by (simp add: build_message_def)

lemma type_no_newline:
  "t \<in> set (keys COMMIT_TYPES) \<Longrightarrow> CHR ''\<newline>'' \<notin> set t"
  by (auto simp: keys_def COMMIT_TYPES_def)

lemma type_no_B:
  "t \<in> set (keys COMMIT_TYPES) \<Longrightarrow> CHR ''B'' \<notin> set t"
  by (auto simp: keys_def COMMIT_TYPES_def)

lemma header_no_newline:
  "type d \<in> set (keys COMMIT_TYPES) \<Longrightarrow> CHR ''\<newline>'' \<notin> set (scope d) \<Longrightarrow>
   CHR ''\<newline>'' \<notin> set (description d) \<Longrightarrow> CHR ''\<newline>'' \<notin> set (header d)"
  using type_no_newline[of "type d"] by (simp add: header_def Let_def)

lemma first_line_append:
  assumes "CHR ''\<newline>'' \<notin> set h" "rest = [] \<or> (\<exists>r. rest = CHR ''\<newline>'' # r)"
  shows "first_line (h @ rest) = h"
proof -
  have "takeWhile (\<lambda>c. c \<noteq> CHR ''\<newline>'') (h @ rest)
        = h @ takeWhile (\<lambda>c. c \<noteq> CHR ''\<newline>'') rest"
    using assms(1) by (intro takeWhile_append2) metis
  moreover have "takeWhile (\<lambda>c. c \<noteq> CHR ''\<newline>'') rest = []"
    using assms(2) by (elim disjE exE) simp_all
  ultimately show ?thesis by (simp only: first_line_def append_Nil2)
qed

lemma header_cases:
  "(scope d \<noteq> [] \<and> breaking d \<longrightarrow>
      header d = type d @ ''('' @ scope d @ '')!: '' @ description d)
   \<and> (scope d = [] \<and> \<not> breaking d \<longrightarrow> header d = type d @ '': '' @ description d)
   \<and> (scope d \<noteq> [] \<and> \<not> breaking d \<longrightarrow>
      header d = type d @ ''('' @ scope d @ ''): '' @ description d)
   \<and> (scope d = [] \<and> breaking d \<longrightarrow> header d = type d @ ''!: '' @ description d)"
  by (simp add: header_def)

lemma build_message_rest:
  "\<exists>rest. build_message d = header d @ rest
         \<and> (rest = [] \<or> (\<exists>r. rest = CHR ''\<newline>'' # r))"
  by (simp add: build_message_eq)

lemma first_line_build_message:
  assumes "type d \<in> set (keys COMMIT_TYPES)" "CHR ''\<newline>'' \<notin> set (scope d)"
    "CHR ''\<newline>'' \<notin> set (description d)"
  shows "first_line (build_message d) = header d"
proof -
  obtain rest where rest: "build_message d = header d @ rest"
    "rest = [] \<or> (\<exists>r. rest = CHR ''\<newline>'' # r)"
    using build_message_rest by blast
  show ?thesis
    using first_line_append[OF header_no_newline[OF assms] rest(2)] rest(1) by simp
qed

lemma sublist_sep:
  assumes "c \<notin> set p"
  shows "sublist p (xs @ c # ys) \<longleftrightarrow> sublist p xs \<or> sublist p ys"
proof
  assume "sublist p (xs @ c # ys)"
  then obtain ps ss where eq: "xs @ c # ys = ps @ p @ ss"
    by (auto simp: sublist_def)
  then consider us where "xs = ps @ us" "us @ c # ys = p @ ss"
    | us where "xs @ us = ps" "c # ys = us @ p @ ss"
    by (auto simp: append_eq_append_conv2)
  then show "sublist p xs \<or> sublist p ys"
  proof cases
    case 1
    from 1(2) consider vs where "p = us @ vs" "vs @ ss = c # ys"
      | vs where "us = p @ vs"
      by (auto simp: append_eq_append_conv2)
    then show ?thesis
    proof cases
      case 1
      then have "vs = []" using assms by (cases vs) auto
      with 1 \<open>xs = ps @ us\<close> have "xs = ps @ p" by simp
      then show ?thesis by simp
    next
      case 2
      with \<open>xs = ps @ us\<close> have "xs = ps @ p @ vs" by simp
      then show ?thesis by simp
    qed
  next
    case 2
    show ?thesis
    proof (cases us)
      case Nil
      with 2(2) assms show ?thesis by (cases p) auto
    next
      case (Cons u us')
      with 2(2) have "ys = us' @ p @ ss" by simp
      then show ?thesis by (auto simp: sublist_def)
    qed
  qed
next
  assume "sublist p xs \<or> sublist p ys"
  then show "sublist p (xs @ c # ys)"
  proof
    assume "sublist p xs"
    then obtain ps ss where "xs = ps @ p @ ss" by (auto simp: sublist_def)
    then have "xs @ c # ys = ps @ p @ (ss @ c # ys)" by simp
    then show ?thesis unfolding sublist_def by blast
  next
    assume "sublist p ys"
    then obtain ps ss where "ys = ps @ p @ ss" by (auto simp: sublist_def)
    then have "xs @ c # ys = (xs @ c # ps) @ p @ ss" by simp
    then show ?thesis unfolding sublist_def by blast
  qed
qed


lemma no_mark_in_type:
  "t \<in> set (keys COMMIT_TYPES) \<Longrightarrow> \<not> sublist ''BREAKING CHANGE'' t"
proof
  assume t: "t \<in> set (keys COMMIT_TYPES)" and "sublist ''BREAKING CHANGE'' t"
  then have "set ''BREAKING CHANGE'' \<subseteq> set t" by (rule_tac set_mono_sublist)
  then have "CHR ''B'' \<in> set t" by simp
  with type_no_B[OF t] show False by simp
qed

lemma no_mark_in_header:
  assumes "type d \<in> set (keys COMMIT_TYPES)"
    and "\<not> sublist ''BREAKING CHANGE'' (scope d)"
    and "\<not> sublist ''BREAKING CHANGE'' (description d)"
  shows "\<not> sublist ''BREAKING CHANGE'' (header d)"
  using no_mark_in_type[OF assms(1)] assms(2,3)
  by (simp add: header_def Let_def sublist_sep sublist_Cons_right)

lemma no_mark_in_message:
  assumes "type d \<in> set (keys COMMIT_TYPES)"
    and "\<not> sublist ''BREAKING CHANGE'' (scope d)"
    and "\<not> sublist ''BREAKING CHANGE'' (description d)"
    and "\<not> sublist ''BREAKING CHANGE'' (body d)"
    and "\<not> breaking d"
  shows "\<not> sublist ''BREAKING CHANGE'' (build_message d)"
  using no_mark_in_header[OF assms(1-3)] assms(4,5)
  by (simp add: build_message_eq sublist_sep sublist_Cons_right)

lemma mark_in_paragraph:
  "sublist ''BREAKING CHANGE'' (''\<newline>\<newline>'' @ BREAKING_PARAGRAPH)"
proof -
  have "''\<newline>\<newline>'' @ BREAKING_PARAGRAPH
        = ''\<newline>\<newline>'' @ ''BREAKING CHANGE'' @ '': This commit introduces breaking changes.''"
    by (simp add: BREAKING_PARAGRAPH_def)
  then show ?thesis unfolding sublist_def by blast
qed

lemma suffix_paragraph_iff:
  assumes "type d \<in> set (keys COMMIT_TYPES)"
    and "\<not> sublist ''BREAKING CHANGE'' (scope d)"
    and "\<not> sublist ''BREAKING CHANGE'' (description d)"
    and "\<not> sublist ''BREAKING CHANGE'' (body d)"
  shows "breaking d \<longleftrightarrow> suffix (''\<newline>\<newline>'' @ BREAKING_PARAGRAPH) (build_message d)"
proof
  assume "breaking d"
  then have "build_message d
      = (header d @ (if body d \<noteq> [] then ''\<newline>\<newline>'' @ body d else []))
        @ (''\<newline>\<newline>'' @ BREAKING_PARAGRAPH)"
    by (simp add: build_message_eq)
  then show "suffix (''\<newline>\<newline>'' @ BREAKING_PARAGRAPH) (build_message d)"
    by (simp only: suffix_def) blast
next
  assume "suffix (''\<newline>\<newline>'' @ BREAKING_PARAGRAPH) (build_message d)"
  then have "sublist (''\<newline>\<newline>'' @ BREAKING_PARAGRAPH) (build_message d)"
    by (rule suffix_imp_sublist)
  with mark_in_paragraph have "sublist ''BREAKING CHANGE'' (build_message d)"
    by (rule sublist_order.order.trans)
  with no_mark_in_message[OF assms] show "breaking d" by blast
qed

subsection \<open>The claims about the message\<close>

text \<open>
  C1, as amended. For a draft whose type is one of the table and whose scope and
  description hold no line feed, with any body and any breaking flag, the first line of
  the message is \<open>type(scope)!: description\<close> when there is a scope and the change is
  breaking, \<open>type: description\<close> when there is neither, \<open>type(scope): description\<close> with
  a scope only and \<open>type!: description\<close> for a breaking change without scope.
\<close>

theorem build_message_header:
  assumes "type d \<in> set (keys COMMIT_TYPES)"
    and "CHR ''\<newline>'' \<notin> set (scope d)"
    and "CHR ''\<newline>'' \<notin> set (description d)"
  shows "(scope d \<noteq> [] \<and> breaking d \<longrightarrow>
      first_line (build_message d) = type d @ ''('' @ scope d @ '')!: '' @ description d)
   \<and> (scope d = [] \<and> \<not> breaking d \<longrightarrow>
      first_line (build_message d) = type d @ '': '' @ description d)
   \<and> (scope d \<noteq> [] \<and> \<not> breaking d \<longrightarrow>
      first_line (build_message d) = type d @ ''('' @ scope d @ ''): '' @ description d)
   \<and> (scope d = [] \<and> breaking d \<longrightarrow>
      first_line (build_message d) = type d @ ''!: '' @ description d)"
  unfolding first_line_build_message[OF assms] by (rule header_cases)

theorem build_message_header_witness:
  "first_line (build_message \<lparr>type = ''feat'', scope = ''auth'', description = ''Add login'',
      body = ''More text'', breaking = True\<rparr>) = ''feat(auth)!: Add login''
   \<and> first_line (build_message \<lparr>type = ''docs'', scope = [], description = ''Fix typo'',
      body = ''More text'', breaking = False\<rparr>) = ''docs: Fix typo''"
proof -
  let ?a = "\<lparr>type = ''feat'', scope = ''auth'', description = ''Add login'',
      body = ''More text'', breaking = True\<rparr>"
  let ?b = "\<lparr>type = ''docs'', scope = [], description = ''Fix typo'',
      body = ''More text'', breaking = False\<rparr>"
  have a: "type ?a \<in> set (keys COMMIT_TYPES)" "CHR ''\<newline>'' \<notin> set (scope ?a)"
    "CHR ''\<newline>'' \<notin> set (description ?a)"
    by (simp_all add: keys_def COMMIT_TYPES_def)
  have b: "type ?b \<in> set (keys COMMIT_TYPES)" "CHR ''\<newline>'' \<notin> set (scope ?b)"
    "CHR ''\<newline>'' \<notin> set (description ?b)"
    by (simp_all add: keys_def COMMIT_TYPES_def)
  have "first_line (build_message ?a) = ''feat(auth)!: Add login''"
    using build_message_header[OF a, THEN conjunct1] by simp
  moreover have "first_line (build_message ?b) = ''docs: Fix typo''"
    using build_message_header[OF b, THEN conjunct2, THEN conjunct1] by simp
  ultimately show ?thesis by (rule conjI)
qed

text \<open>
  C1 as stated fails for a scope that holds a line feed, which a quick commit takes from
  the command line as it is: for the type \<open>feat\<close>, the scope made of \<open>a\<close>, a line feed and
  \<open>b\<close>, and the description \<open>Add login\<close>, the first line of the message is \<open>feat(a\<close>
  and not the type, the scope in parentheses, a colon, a space and the description.
\<close>

theorem build_message_header_counterexample:
  "quick_fields ''feat'' ''Add login'' (Some ''a\<newline>b'')
     = \<lparr>type = ''feat'', scope = ''a\<newline>b'', description = ''Add login'',
        body = [], breaking = False\<rparr>
   \<and> ''feat'' \<in> set (keys COMMIT_TYPES)
   \<and> first_line (build_message \<lparr>type = ''feat'', scope = ''a\<newline>b'',
        description = ''Add login'', body = [], breaking = False\<rparr>) = ''feat(a''
   \<and> first_line (build_message \<lparr>type = ''feat'', scope = ''a\<newline>b'',
        description = ''Add login'', body = [], breaking = False\<rparr>)
       \<noteq> ''feat'' @ ''('' @ ''a\<newline>b'' @ ''): '' @ ''Add login''"
  by (simp add: quick_fields_def init_def keys_def COMMIT_TYPES_def first_line_def
        build_message_def header_def)

text \<open>
  C2, as amended. For a draft whose type is one of the table and whose scope, description
  and body do not hold the string \<open>BREAKING CHANGE\<close>: the message ends with a blank
  line and the breaking-change paragraph exactly when the breaking flag is set; when it is
  set, the message is the header, the body paragraph if there is a body, one empty line
  and the breaking-change paragraph; when it is not set, the string \<open>BREAKING CHANGE\<close>
  does not occur in the message.
\<close>

theorem breaking_paragraph:
  assumes "type d \<in> set (keys COMMIT_TYPES)"
    and "\<not> sublist ''BREAKING CHANGE'' (scope d)"
    and "\<not> sublist ''BREAKING CHANGE'' (description d)"
    and "\<not> sublist ''BREAKING CHANGE'' (body d)"
  shows "(breaking d \<longleftrightarrow>
            suffix (''\<newline>\<newline>'' @ BREAKING_PARAGRAPH) (build_message d))
    \<and> (breaking d \<longrightarrow>
          build_message d
          = header d @ (if body d \<noteq> [] then ''\<newline>\<newline>'' @ body d else [])
              @ ''\<newline>\<newline>'' @ BREAKING_PARAGRAPH)
    \<and> (\<not> breaking d \<longrightarrow> \<not> sublist ''BREAKING CHANGE'' (build_message d))"
proof (intro conjI impI)
  show "breaking d \<longleftrightarrow>
          suffix (''\<newline>\<newline>'' @ BREAKING_PARAGRAPH) (build_message d)"
    by (rule suffix_paragraph_iff[OF assms])
  show "build_message d
          = header d @ (if body d \<noteq> [] then ''\<newline>\<newline>'' @ body d else [])
              @ ''\<newline>\<newline>'' @ BREAKING_PARAGRAPH" if "breaking d"
    using that by (simp add: build_message_eq)
  show "\<not> sublist ''BREAKING CHANGE'' (build_message d)" if "\<not> breaking d"
    by (rule no_mark_in_message[OF assms that])
qed

theorem breaking_paragraph_witness:
  "suffix (''\<newline>\<newline>'' @ BREAKING_PARAGRAPH)
     (build_message \<lparr>type = ''fix'', scope = [], description = ''Fix null pointer'',
        body = ''Guard the lookup.'', breaking = True\<rparr>)
   \<and> \<not> sublist ''BREAKING CHANGE''
     (build_message \<lparr>type = ''fix'', scope = ''core'', description = ''Fix null pointer'',
        body = ''Guard the lookup.'', breaking = False\<rparr>)"
proof -
  let ?a = "\<lparr>type = ''fix'', scope = [], description = ''Fix null pointer'',
        body = ''Guard the lookup.'', breaking = True\<rparr>"
  let ?b = "\<lparr>type = ''fix'', scope = ''core'', description = ''Fix null pointer'',
        body = ''Guard the lookup.'', breaking = False\<rparr>"
  have a: "type ?a \<in> set (keys COMMIT_TYPES)" "\<not> sublist ''BREAKING CHANGE'' (scope ?a)"
    "\<not> sublist ''BREAKING CHANGE'' (description ?a)"
    "\<not> sublist ''BREAKING CHANGE'' (body ?a)"
    by (simp_all add: keys_def COMMIT_TYPES_def sublist_Cons_right)
  have b: "type ?b \<in> set (keys COMMIT_TYPES)" "\<not> sublist ''BREAKING CHANGE'' (scope ?b)"
    "\<not> sublist ''BREAKING CHANGE'' (description ?b)"
    "\<not> sublist ''BREAKING CHANGE'' (body ?b)"
    by (simp_all add: keys_def COMMIT_TYPES_def sublist_Cons_right)
  have "suffix (''\<newline>\<newline>'' @ BREAKING_PARAGRAPH) (build_message ?a)"
    using breaking_paragraph[OF a, THEN conjunct1] by simp
  moreover have "\<not> sublist ''BREAKING CHANGE'' (build_message ?b)"
    using breaking_paragraph[OF b, THEN conjunct2, THEN conjunct2] by simp
  ultimately show ?thesis by (rule conjI)
qed

text \<open>
  C2 as stated fails for a draft whose own text holds the string: with the breaking flag
  not set and the paragraph typed as the body, the message ends with a blank line and the
  paragraph, and the string \<open>BREAKING CHANGE\<close> occurs in it.
\<close>

theorem breaking_paragraph_counterexample:
  "\<not> breaking \<lparr>type = ''docs'', scope = [], description = ''Describe the release'',
        body = ''BREAKING CHANGE: This commit introduces breaking changes.'',
        breaking = False\<rparr>
   \<and> suffix (''\<newline>\<newline>'' @ BREAKING_PARAGRAPH)
     (build_message \<lparr>type = ''docs'', scope = [], description = ''Describe the release'',
        body = ''BREAKING CHANGE: This commit introduces breaking changes.'',
        breaking = False\<rparr>)
   \<and> sublist ''BREAKING CHANGE''
     (build_message \<lparr>type = ''docs'', scope = [], description = ''Describe the release'',
        body = ''BREAKING CHANGE: This commit introduces breaking changes.'',
        breaking = False\<rparr>)"
proof -
  have m: "build_message \<lparr>type = ''docs'', scope = [], description = ''Describe the release'',
        body = ''BREAKING CHANGE: This commit introduces breaking changes.'',
        breaking = False\<rparr>
      = ''docs: Describe the release'' @ (''\<newline>\<newline>'' @ BREAKING_PARAGRAPH)"
    by (simp add: build_message_def header_def BREAKING_PARAGRAPH_def)
  have "suffix (''\<newline>\<newline>'' @ BREAKING_PARAGRAPH)
          (''docs: Describe the release'' @ (''\<newline>\<newline>'' @ BREAKING_PARAGRAPH))"
    by (rule suffix_appendI) (rule suffix_order.refl)
  moreover from this have "sublist ''BREAKING CHANGE''
          (''docs: Describe the release'' @ (''\<newline>\<newline>'' @ BREAKING_PARAGRAPH))"
    by (intro sublist_order.order.trans[OF mark_in_paragraph] suffix_imp_sublist)
  ultimately show ?thesis by (simp only: m simp_thms CommitHelper.simps)
qed

text \<open>
  C3. With a non-empty body the message is the header, one empty line, the body and, for
  a breaking change, one more empty line and the breaking-change paragraph; with an empty
  body the message is the header, followed for a breaking change by one empty line and the
  breaking-change paragraph, and by nothing otherwise.
\<close>

theorem body_paragraph:
  "(body d \<noteq> [] \<longrightarrow>
      build_message d
      = header d @ ''\<newline>\<newline>'' @ body d
          @ (if breaking d then ''\<newline>\<newline>'' @ BREAKING_PARAGRAPH else []))
   \<and> (body d = [] \<longrightarrow>
      build_message d
      = header d @ (if breaking d then ''\<newline>\<newline>'' @ BREAKING_PARAGRAPH else []))"
  by (simp add: build_message_eq)

theorem body_paragraph_witness:
  "build_message \<lparr>type = ''feat'', scope = ''api'', description = ''Add paging'',
      body = ''Pages hold 50 rows.'', breaking = True\<rparr>
   = ''feat(api)!: Add paging\<newline>\<newline>Pages hold 50 rows.\<newline>\<newline>BREAKING CHANGE: This commit introduces breaking changes.''
   \<and> build_message \<lparr>type = ''feat'', scope = ''api'', description = ''Add paging'',
      body = [], breaking = False\<rparr> = ''feat(api): Add paging''"
  using body_paragraph[of "\<lparr>type = ''feat'', scope = ''api'', description = ''Add paging'',
          body = ''Pages hold 50 rows.'', breaking = True\<rparr>"]
        body_paragraph[of "\<lparr>type = ''feat'', scope = ''api'', description = ''Add paging'',
          body = [], breaking = False\<rparr>"]
  by (simp add: header_def BREAKING_PARAGRAPH_def)

text \<open>
  C4. The two examples of the specification: the draft (feat, auth, "Add login", no body,
  not breaking) gives \<open>feat(auth): Add login\<close>, and the draft (fix, no scope,
  "Fix null pointer", no body, breaking) gives the header \<open>fix!: Fix null pointer\<close>, a blank
  line and the breaking-change paragraph.
\<close>

theorem build_message_examples:
  "build_message \<lparr>type = ''feat'', scope = ''auth'', description = ''Add login'',
                  body = [], breaking = False\<rparr> = ''feat(auth): Add login''
   \<and> build_message \<lparr>type = ''fix'', scope = [], description = ''Fix null pointer'',
                  body = [], breaking = True\<rparr>
     = ''fix!: Fix null pointer\<newline>\<newline>BREAKING CHANGE: This commit introduces breaking changes.''"
  by (simp add: build_message_def header_def BREAKING_PARAGRAPH_def)

section \<open>Properties of the prompts\<close>

subsection \<open>The affirmative answer\<close>

lemma lower_char_y: "lower_char c = CHR ''y'' \<longleftrightarrow> c = CHR ''y'' \<or> c = CHR ''Y''"
proof (cases c)
  case (Char b0 b1 b2 b3 b4 b5 b6 b7)
  then show ?thesis
    by (simp add: lower_char_def Let_def char_of_def bit_Suc of_char_def
          horner_sum_eq_sum bit_Suc_0_iff)
qed

lemma lower_y: "lower s = ''y'' \<longleftrightarrow> s = ''y'' \<or> s = ''Y''"
proof -
  have "lower s = ''y'' \<longleftrightarrow> (\<exists>c. s = [c] \<and> lower_char c = CHR ''y'')"
    by (cases s) (auto simp: lower_def)
  then show ?thesis by (auto simp: lower_char_y)
qed

lemma strip_single:
  assumes "\<not> isspace c"
  shows "strip l = [c] \<longleftrightarrow>
         (\<exists>ws1 ws2. l = ws1 @ c # ws2 \<and> list_all isspace ws1 \<and> list_all isspace ws2)"
proof
  assume s: "strip l = [c]"
  define r where "r = dropWhile isspace l"
  have l: "l = takeWhile isspace l @ r" by (simp add: r_def)
  from s have "dropWhile isspace (rev r) = [c]"
    by (simp add: strip_def r_def rev_swap)
  then have "rev r = takeWhile isspace (rev r) @ [c]"
    by (metis takeWhile_dropWhile_id)
  then have "r = c # rev (takeWhile isspace (rev r))"
    by (metis rev.simps(2) rev_rev_ident rev_swap rev_append append_Cons append_Nil)
  with l have "l = takeWhile isspace l @ c # rev (takeWhile isspace (rev r))" by simp
  moreover have "list_all isspace (takeWhile isspace l)"
    by (simp add: list_all_iff) (meson set_takeWhileD)
  moreover have "list_all isspace (rev (takeWhile isspace (rev r)))"
    by (simp add: list_all_iff) (meson set_takeWhileD)
  ultimately show "\<exists>ws1 ws2. l = ws1 @ c # ws2 \<and> list_all isspace ws1 \<and> list_all isspace ws2"
    by blast
next
  assume "\<exists>ws1 ws2. l = ws1 @ c # ws2 \<and> list_all isspace ws1 \<and> list_all isspace ws2"
  then obtain ws1 ws2 where l: "l = ws1 @ c # ws2"
    and w1: "list_all isspace ws1" and w2: "list_all isspace ws2" by blast
  have "dropWhile isspace l = c # ws2"
    using w1 assms by (simp add: l list_all_iff dropWhile_append)
  moreover have "dropWhile isspace (rev ws2 @ [c]) = [c]"
    using w2 assms by (simp add: list_all_iff dropWhile_append)
  ultimately show "strip l = [c]" by (simp add: strip_def)
qed

lemma affirmative_iff:
  "lower (strip l) = ''y'' \<longleftrightarrow>
     (\<exists>ws1 c ws2. l = ws1 @ c # ws2 \<and> list_all isspace ws1 \<and> list_all isspace ws2
        \<and> (c = CHR ''y'' \<or> c = CHR ''Y''))"
proof -
  have ny: "\<not> isspace (CHR ''y'')" and nY: "\<not> isspace (CHR ''Y'')"
    by (simp_all add: isspace_def)
  have "lower (strip l) = ''y'' \<longleftrightarrow> strip l = [CHR ''y''] \<or> strip l = [CHR ''Y'']"
    by (simp add: lower_y)
  also have "\<dots> \<longleftrightarrow> (\<exists>ws1 c ws2. l = ws1 @ c # ws2 \<and> list_all isspace ws1
        \<and> list_all isspace ws2 \<and> (c = CHR ''y'' \<or> c = CHR ''Y''))"
    unfolding strip_single[OF ny] strip_single[OF nY] by blast
  finally show ?thesis .
qed

text \<open>
  C9. On an input line \<open>check_breaking\<close> returns whether the line, stripped and in lower
  case, is \<open>y\<close>, and leaves the rest of the input; this is the case exactly for the lines
  that consist of one letter \<open>y\<close> or \<open>Y\<close> with white space around it. For the empty
  line it returns false.
\<close>

theorem check_breaking_affirmative:
  "check_breaking (Line l # rest) = (Inr (lower (strip l) = ''y''), rest)
   \<and> (lower (strip l) = ''y'' \<longleftrightarrow>
        (\<exists>ws1 c ws2. l = ws1 @ c # ws2 \<and> list_all isspace ws1 \<and> list_all isspace ws2
           \<and> (c = CHR ''y'' \<or> c = CHR ''Y'')))
   \<and> check_breaking (Line [] # rest) = (Inr False, rest)"
proof (intro conjI)
  show "check_breaking (Line l # rest) = (Inr (lower (strip l) = ''y''), rest)"
    by (simp add: check_breaking_def then_read_def)
  show "lower (strip l) = ''y'' \<longleftrightarrow>
        (\<exists>ws1 c ws2. l = ws1 @ c # ws2 \<and> list_all isspace ws1 \<and> list_all isspace ws2
           \<and> (c = CHR ''y'' \<or> c = CHR ''Y''))"
    by (rule affirmative_iff)
  show "check_breaking (Line [] # rest) = (Inr False, rest)"
    by (simp add: check_breaking_def then_read_def strip_def lower_def)
qed

theorem check_breaking_affirmative_witness:
  "check_breaking [Line ''  Y '', Line ''next''] = (Inr True, [Line ''next''])
   \<and> check_breaking [Line ''yes''] = (Inr False, [])
   \<and> check_breaking [Line []] = (Inr False, [])"
proof -
  have a: "'' Y '' = '' '' @ CHR ''Y'' # '' ''" by simp
  have "lower (strip ''  Y '') = ''y''"
    unfolding check_breaking_affirmative[of "''  Y ''" "[]", THEN conjunct2, THEN conjunct1]
    by (rule exI[of _ "''  ''"], rule exI[of _ "CHR ''Y''"], rule exI[of _ "'' ''"])
       (simp add: isspace_def)
  moreover have "lower (strip ''yes'') \<noteq> ''y''"
    by (simp add: strip_def isspace_def lower_def)
  ultimately show ?thesis
    using check_breaking_affirmative[of "''  Y ''" "[Line ''next'']"]
      check_breaking_affirmative[of "''yes''" "[]"]
    by simp
qed

subsection \<open>The description\<close>

lemma get_description_returns:
  "get_description ins = (Inr d, rest) \<Longrightarrow>
     d \<noteq> [] \<and>
     (\<exists>pre l. strip l = d \<and>
        (if length d \<le> 72 then ins = pre @ Line l # rest
         else \<exists>c. ins = pre @ Line l # Line c # rest \<and> lower (strip c) = ''y''))"
proof (induction ins rule: get_description.induct)
  case 1
  then show ?case by simp
next
  case (2 rest')
  then show ?case by simp
next
  case (3 l rest')
  show ?case
  proof (cases "strip l = []")
    case True
    with 3 obtain pre l' where "d \<noteq> []" "strip l' = d"
      "if length d \<le> 72 then rest' = pre @ Line l' # rest
       else \<exists>c. rest' = pre @ Line l' # Line c # rest \<and> lower (strip c) = ''y''"
      by auto
    then have "strip l' = d \<and> (if length d \<le> 72 then Line l # rest' = (Line l # pre) @ Line l' # rest
       else \<exists>c. Line l # rest' = (Line l # pre) @ Line l' # Line c # rest \<and> lower (strip c) = ''y'')"
      by (simp split: if_splits)
    with \<open>d \<noteq> []\<close> show ?thesis by blast
  next
    case nonempty: False
    show ?thesis
    proof (cases "length (strip l) > 72")
      case False
      with nonempty "3.prems" have "d = strip l" "rest = rest'" by simp_all
      with nonempty False have "strip l = d \<and> (if length d \<le> 72 then Line l # rest' = [] @ Line l # rest
        else \<exists>c. Line l # rest' = [] @ Line l # Line c # rest \<and> lower (strip c) = ''y'')"
        by simp
      with nonempty \<open>d = strip l\<close> show ?thesis by blast
    next
      case long: True
      show ?thesis
      proof (cases rest')
        case Nil
        with nonempty long "3.prems" show ?thesis by simp
      next
        case (Cons i rest'')
        show ?thesis
        proof (cases i)
          case Interrupt
          with Cons nonempty long "3.prems" show ?thesis by simp
        next
          case (Line c)
          show ?thesis
          proof (cases "lower (strip c) = ''y''")
            case True
            with Line Cons nonempty long "3.prems" have "d = strip l" "rest = rest''" by simp_all
            with True Line Cons long have "strip l = d \<and> (if length d \<le> 72 then Line l # rest' = [] @ Line l # rest
              else \<exists>c. Line l # rest' = [] @ Line l # Line c # rest \<and> lower (strip c) = ''y'')"
              by simp
            with nonempty \<open>d = strip l\<close> show ?thesis by blast
          next
            case False
            with Line Cons nonempty long "3.prems"
            have "get_description rest'' = (Inr d, rest)" by simp
            with "3.IH"(1)[OF nonempty long Cons Line False]
            obtain pre l' where "d \<noteq> []" "strip l' = d"
              "if length d \<le> 72 then rest'' = pre @ Line l' # rest
               else \<exists>c. rest'' = pre @ Line l' # Line c # rest \<and> lower (strip c) = ''y''"
              by auto
            then have "strip l' = d \<and> (if length d \<le> 72
                then Line l # rest' = (Line l # Line c # pre) @ Line l' # rest
                else \<exists>c'. Line l # rest' = (Line l # Line c # pre) @ Line l' # Line c' # rest
                      \<and> lower (strip c') = ''y'')"
              using Cons Line by (simp split: if_splits)
            with \<open>d \<noteq> []\<close> show ?thesis by blast
          qed
        qed
      qed
    qed
  qed
qed


lemma get_description_short:
  "strip l \<noteq> [] \<and> length (strip l) \<le> 72 \<Longrightarrow>
     get_description (Line l # rest) = (Inr (strip l), rest)"
  by simp

lemma get_description_confirmed:
  "length (strip l) > 72 \<and> lower (strip c) = ''y'' \<Longrightarrow>
     get_description (Line l # Line c # rest) = (Inr (strip l), rest)"
  by auto

lemma get_description_declined:
  "length (strip l) > 72 \<and> lower (strip c) \<noteq> ''y'' \<Longrightarrow>
     get_description (Line l # Line c # rest) = get_description rest"
  by auto

lemma get_description_empty:
  "strip l = [] \<Longrightarrow> get_description (Line l # rest) = get_description rest"
  by simp

text \<open>
  C8. Whatever the input, a description that \<open>get_description\<close> returns is not empty; it
  is the stripped form of an entry, and when it is longer than 72 characters the entry
  was followed by a confirmation. An entry that is not empty and at most 72 characters
  long after stripping is returned at once; a longer one is returned when the next answer
  confirms it, and the prompt is repeated when that answer declines; an entry that is
  empty after stripping repeats the prompt.
\<close>

theorem get_description_behaviour:
  "(get_description ins = (Inr d, rest') \<longrightarrow>
      d \<noteq> [] \<and>
      (\<exists>pre e. strip e = d \<and>
         (if length d \<le> 72 then ins = pre @ Line e # rest'
          else \<exists>a. ins = pre @ Line e # Line a # rest' \<and> lower (strip a) = ''y'')))
   \<and> (strip l \<noteq> [] \<and> length (strip l) \<le> 72 \<longrightarrow>
        get_description (Line l # rest) = (Inr (strip l), rest))
   \<and> (length (strip l) > 72 \<and> lower (strip c) = ''y'' \<longrightarrow>
        get_description (Line l # Line c # rest) = (Inr (strip l), rest))
   \<and> (length (strip l) > 72 \<and> lower (strip c) \<noteq> ''y'' \<longrightarrow>
        get_description (Line l # Line c # rest) = get_description rest)
   \<and> (strip l = [] \<longrightarrow> get_description (Line l # rest) = get_description rest)"
  apply (rule conjI, rule impI, erule get_description_returns)
  apply (rule conjI, rule impI, erule get_description_short)
  apply (rule conjI, rule impI, erule get_description_confirmed)
  apply (rule conjI, rule impI, erule get_description_declined)
  apply (rule impI, erule get_description_empty)
  done

theorem get_description_behaviour_witness:
  "get_description [Line ''  Add login '', Line ''x''] = (Inr ''Add login'', [Line ''x''])
   \<and> get_description
        [Line '' Rework the configuration loader so that every option is validated before it is used'', Line '' Y '', Line ''x'']
      = (Inr ''Rework the configuration loader so that every option is validated before it is used'', [Line ''x''])
   \<and> get_description
        [Line '' Rework the configuration loader so that every option is validated before it is used'', Line ''no'', Line ''Fix it'']
      = get_description [Line ''Fix it'']
   \<and> get_description [Line ''   '', Line ''Fix it''] = get_description [Line ''Fix it'']
   \<and> ''Fix it'' \<noteq> []"
proof -
  have s1: "strip ''  Add login '' = ''Add login''"
    by (simp add: strip_def isspace_def)
  have s2: "strip '' Rework the configuration loader so that every option is validated before it is used'' = ''Rework the configuration loader so that every option is validated before it is used''"
    by (simp add: strip_def isspace_def)
  have s3: "strip ''   '' = []"
    by (simp add: strip_def isspace_def)
  have y: "lower (strip '' Y '') = ''y''" "lower (strip ''no'') \<noteq> ''y''"
    by (simp_all add: strip_def isspace_def lower_y)
  have r: "get_description [Line ''Fix it''] = (Inr ''Fix it'', [])"
    by (simp add: strip_def isspace_def)
  note t = get_description_behaviour
  have "get_description [Line ''  Add login '', Line ''x''] = (Inr ''Add login'', [Line ''x''])"
    using t[where l = "''  Add login ''" and rest = "[Line ''x'']", THEN conjunct2, THEN conjunct1]
    by (simp add: s1)
  moreover have "get_description [Line '' Rework the configuration loader so that every option is validated before it is used'', Line '' Y '', Line ''x'']
      = (Inr ''Rework the configuration loader so that every option is validated before it is used'', [Line ''x''])"
    using t[where l = "'' Rework the configuration loader so that every option is validated before it is used''" and c = "'' Y ''" and rest = "[Line ''x'']",
        THEN conjunct2, THEN conjunct2, THEN conjunct1] y(1)
    by (simp add: s2)
  moreover have "get_description [Line '' Rework the configuration loader so that every option is validated before it is used'', Line ''no'', Line ''Fix it'']
      = get_description [Line ''Fix it'']"
    using t[where l = "'' Rework the configuration loader so that every option is validated before it is used''" and c = "''no''" and rest = "[Line ''Fix it'']",
        THEN conjunct2, THEN conjunct2, THEN conjunct2, THEN conjunct1] y(2)
    by (simp add: s2)
  moreover have "get_description [Line ''   '', Line ''Fix it''] = get_description [Line ''Fix it'']"
    using t[where l = "''   ''" and rest = "[Line ''Fix it'']",
        THEN conjunct2, THEN conjunct2, THEN conjunct2, THEN conjunct2]
    by (simp add: s3)
  moreover have "''Fix it'' \<noteq> []"
    using t[where ins = "[Line ''Fix it'']" and d = "''Fix it''" and rest' = "[]", THEN conjunct1] r
    by blast
  ultimately show ?thesis by (intro conjI)
qed

subsection \<open>The selection of the type\<close>

lemma length_keys: "length (keys COMMIT_TYPES) = 11"
  by (simp add: keys_def COMMIT_TYPES_def)

lemma select_type_reprompt:
  "py_int (strip l) = Some n \<and> (n < 1 \<or> 11 < n) \<Longrightarrow>
     select_type (Line l # rest) = select_type rest"
  by (auto simp: length_keys Let_def)

lemma select_type_value_error:
  "py_int (strip l) = None \<Longrightarrow> select_type (Line l # rest) = (Inl (SysExit 1), rest)"
  by simp

lemma select_type_returns:
  "select_type ins = (Inr t, rest') \<Longrightarrow>
     \<exists>pre e k. ins = pre @ Line e # rest' \<and> py_int (strip e) = Some k \<and> 1 \<le> k \<and> k \<le> 11
        \<and> t = keys COMMIT_TYPES ! nat (k - 1) \<and> t \<in> set (keys COMMIT_TYPES)
        \<and> list_all (\<lambda>i. \<exists>e' k'. i = Line e' \<and> py_int (strip e') = Some k'
                            \<and> (k' < 1 \<or> 11 < k')) pre"
proof (induction ins rule: select_type.induct)
  case 1
  then show ?case by simp
next
  case (2 rest)
  then show ?case by simp
next
  case (3 l rest)
  show ?case
  proof (cases "py_int (strip l)")
    case None
    with "3.prems" show ?thesis by simp
  next
    case (Some n)
    show ?thesis
    proof (cases "1 \<le> n \<and> n \<le> 11")
      case True
      with Some "3.prems" have t: "t = keys COMMIT_TYPES ! nat (n - 1)" and r: "rest' = rest"
        by (simp_all add: length_keys Let_def)
      from True have "nat (n - 1) < length (keys COMMIT_TYPES)"
        unfolding length_keys by linarith
      then have "keys COMMIT_TYPES ! nat (n - 1) \<in> set (keys COMMIT_TYPES)"
        by (rule nth_mem)
      with t r Some True have "Line l # rest = [] @ Line l # rest' \<and> py_int (strip l) = Some n
          \<and> 1 \<le> n \<and> n \<le> 11 \<and> t = keys COMMIT_TYPES ! nat (n - 1)
          \<and> t \<in> set (keys COMMIT_TYPES)
          \<and> list_all (\<lambda>i. \<exists>e' k'. i = Line e' \<and> py_int (strip e') = Some k'
                            \<and> (k' < 1 \<or> 11 < k')) []"
        by simp
      then show ?thesis by blast
    next
      case False
      then have out: "n < 1 \<or> 11 < n" by linarith
      with Some "3.prems" have "select_type rest = (Inr t, rest')"
        by (auto simp: length_keys Let_def)
      moreover have "\<not> (0 \<le> n - 1 \<and> n - 1 < int (length (keys COMMIT_TYPES)))"
        using out by (auto simp: length_keys)
      ultimately obtain pre e k where
        "rest = pre @ Line e # rest'" "py_int (strip e) = Some k" "1 \<le> k" "k \<le> 11"
        "t = keys COMMIT_TYPES ! nat (k - 1)" "t \<in> set (keys COMMIT_TYPES)"
        "list_all (\<lambda>i. \<exists>e' k'. i = Line e' \<and> py_int (strip e') = Some k'
                            \<and> (k' < 1 \<or> 11 < k')) pre"
        using "3.IH"[OF Some refl] by blast
      then have "Line l # rest = (Line l # pre) @ Line e # rest' \<and> py_int (strip e) = Some k
          \<and> 1 \<le> k \<and> k \<le> 11 \<and> t = keys COMMIT_TYPES ! nat (k - 1)
          \<and> t \<in> set (keys COMMIT_TYPES)
          \<and> list_all (\<lambda>i. \<exists>e' k'. i = Line e' \<and> py_int (strip e') = Some k'
                            \<and> (k' < 1 \<or> 11 < k')) (Line l # pre)"
        using Some out by simp
      then show ?thesis by blast
    qed
  qed
qed


lemma py_int_examples:
  "py_int (strip ''0'') = Some 0" "py_int (strip '' 12 '') = Some 12"
  "py_int (strip ''3'') = Some 3" "py_int (strip ''abc'') = None"
  "py_int (strip ''1'') = Some 1"
  by (simp_all add: py_int_def strip_def isspace_def int_space_def digits_def is_digit_def
        digit_val_def max_str_digits_def)

lemma digits_limit:
  "length (filter is_digit s) > max_str_digits \<Longrightarrow> digits s = None"
  by (cases s) (auto simp: digits_def)

lemma filter_digit_dropWhile:
  "(\<And>c. P c \<Longrightarrow> \<not> is_digit c) \<Longrightarrow> filter is_digit (dropWhile P s) = filter is_digit s"
  by (induction s) auto

lemma filter_digit_trim:
  assumes "\<And>c. P c \<Longrightarrow> \<not> is_digit c"
  shows "filter is_digit (rev (dropWhile P (rev (dropWhile P s)))) = filter is_digit s"
proof -
  have "filter is_digit (rev (dropWhile P (rev (dropWhile P s))))
        = rev (filter is_digit (dropWhile P (rev (dropWhile P s))))"
    by (simp add: rev_filter)
  also have "\<dots> = rev (filter is_digit (rev (dropWhile P s)))"
    by (simp add: filter_digit_dropWhile[OF assms])
  also have "\<dots> = filter is_digit (dropWhile P s)"
    by (simp add: rev_filter)
  also have "\<dots> = filter is_digit s"
    by (rule filter_digit_dropWhile[OF assms])
  finally show ?thesis .
qed

lemma space_no_digit: "isspace c \<Longrightarrow> \<not> is_digit c"
  by (auto simp: isspace_def is_digit_def)

lemma int_space_no_digit: "int_space c \<Longrightarrow> \<not> is_digit c"
  by (auto simp: int_space_def is_digit_def)

lemma py_int_limit:
  assumes "length (filter is_digit s) > max_str_digits"
  shows "py_int s = None"
proof -
  define u where "u = rev (dropWhile int_space (rev (dropWhile int_space s)))"
  have f: "filter is_digit u = filter is_digit s"
    unfolding u_def by (rule filter_digit_trim) (rule int_space_no_digit)
  show ?thesis
  proof (cases u)
    case Nil
    then show ?thesis by (simp add: py_int_def u_def[symmetric])
  next
    case (Cons c cs)
    have sign: "filter is_digit cs = filter is_digit s" if "c = CHR ''-'' \<or> c = CHR ''+''"
      using that f Cons by (auto simp: is_digit_def)
    have "digits (c # cs) = None"
      using assms f Cons by (intro digits_limit) simp
    moreover have "digits cs = None" if "c = CHR ''-'' \<or> c = CHR ''+''"
      using assms sign[OF that] by (intro digits_limit) simp
    ultimately show ?thesis
      using Cons by (simp add: py_int_def u_def[symmetric])
  qed
qed

lemma select_type_too_many_digits:
  assumes "length (filter is_digit l) > max_str_digits"
  shows "select_type (Line l # rest) = (Inl (SysExit 1), rest)"
proof -
  have "filter is_digit (strip l) = filter is_digit l"
    unfolding strip_def by (rule filter_digit_trim) (rule space_no_digit)
  with assms have "py_int (strip l) = None" by (intro py_int_limit) simp
  then show ?thesis by simp
qed

text \<open>
  C5, as amended. In \<open>select_type\<close> an entry that \<open>int\<close> converts to a number outside
  1 to 11 makes the loop prompt again; an entry that \<open>int\<close> refuses, among them every
  entry with more than 4300 digits, ends the run with exit status 1, as does an interrupt;
  and when \<open>select_type\<close> returns, the entries before the last one read were numbers out
  of range, the last one is a number from 1 to 11, and the result is the type at that
  position of the table, counted from 1.
\<close>

theorem select_type_behaviour:
  "(py_int (strip l) = Some n \<and> (n < 1 \<or> 11 < n) \<longrightarrow>
      select_type (Line l # rest) = select_type rest)
   \<and> (py_int (strip l) = None \<longrightarrow>
        select_type (Line l # rest) = (Inl (SysExit 1), rest))
   \<and> (length (filter is_digit l) > max_str_digits \<longrightarrow>
        select_type (Line l # rest) = (Inl (SysExit 1), rest))
   \<and> select_type (Interrupt # rest) = (Inl (SysExit 1), rest)
   \<and> (select_type ins = (Inr t, rest') \<longrightarrow>
        (\<exists>pre e k. ins = pre @ Line e # rest' \<and> py_int (strip e) = Some k
            \<and> 1 \<le> k \<and> k \<le> 11
            \<and> t = keys COMMIT_TYPES ! nat (k - 1) \<and> t \<in> set (keys COMMIT_TYPES)
            \<and> list_all (\<lambda>i. \<exists>e' k'. i = Line e' \<and> py_int (strip e') = Some k'
                            \<and> (k' < 1 \<or> 11 < k')) pre))"
  apply (rule conjI, rule impI, erule select_type_reprompt)
  apply (rule conjI, rule impI, erule select_type_value_error)
  apply (rule conjI, rule impI, erule select_type_too_many_digits)
  apply (rule conjI, simp)
  apply (rule impI, erule select_type_returns)
  done

theorem select_type_behaviour_witness:
  "select_type [Line ''0'', Line ''3''] = select_type [Line ''3'']
   \<and> select_type [Line '' 12 '', Line ''3''] = select_type [Line ''3'']
   \<and> select_type [Line ''abc'', Line ''3''] = (Inl (SysExit 1), [Line ''3''])
   \<and> select_type [Line (replicate 4301 (CHR ''7'')), Line ''3'']
       = (Inl (SysExit 1), [Line ''3''])
   \<and> select_type [Interrupt, Line ''3''] = (Inl (SysExit 1), [Line ''3''])
   \<and> select_type [Line ''3'', Line ''core''] = (Inr ''docs'', [Line ''core''])
   \<and> ''docs'' \<in> set (keys COMMIT_TYPES)"
proof -
  note t = select_type_behaviour
  have a: "select_type [Line ''0'', Line ''3''] = select_type [Line ''3'']"
    using t[where l = "''0''" and n = 0 and rest = "[Line ''3'']", THEN conjunct1]
    by (simp add: py_int_examples)
  have b: "select_type [Line '' 12 '', Line ''3''] = select_type [Line ''3'']"
    using t[where l = "'' 12 ''" and n = 12 and rest = "[Line ''3'']", THEN conjunct1]
    by (simp add: py_int_examples)
  have c: "select_type [Line ''abc'', Line ''3''] = (Inl (SysExit 1), [Line ''3''])"
    using t[where l = "''abc''" and rest = "[Line ''3'']", THEN conjunct2, THEN conjunct1]
    by (simp add: py_int_examples)
  have many: "length (filter is_digit (replicate 4301 (CHR ''7''))) > max_str_digits"
    by (simp add: is_digit_def max_str_digits_def)
  have g: "select_type [Line (replicate 4301 (CHR ''7'')), Line ''3'']
      = (Inl (SysExit 1), [Line ''3''])"
    using t[where l = "replicate 4301 (CHR ''7'')" and rest = "[Line ''3'']",
        THEN conjunct2, THEN conjunct2, THEN conjunct1] many
    by (rule mp)
  have d: "select_type [Interrupt, Line ''3''] = (Inl (SysExit 1), [Line ''3''])"
    using t[where rest = "[Line ''3'']",
        THEN conjunct2, THEN conjunct2, THEN conjunct2, THEN conjunct1] .
  have e: "select_type [Line ''3'', Line ''core''] = (Inr ''docs'', [Line ''core''])"
    by (simp add: py_int_examples keys_def COMMIT_TYPES_def)
  have f: "''docs'' \<in> set (keys COMMIT_TYPES)"
    using t[where ins = "[Line ''3'', Line ''core'']" and t = "''docs''"
        and rest' = "[Line ''core'']",
        THEN conjunct2, THEN conjunct2, THEN conjunct2, THEN conjunct2] e
    by blast
  from a b c g d e f show ?thesis by (intro conjI)
qed

text \<open>
  C5 as stated fails on an entry that is not a number: after \<open>abc\<close> the run ends with exit
  status 1 and the valid entry behind it is never read, where a repeated prompt would have
  returned \<open>feat\<close>.
\<close>

theorem select_type_counterexample:
  "py_int (strip ''abc'') = None
   \<and> select_type [Line ''abc'', Line ''1''] = (Inl (SysExit 1), [Line ''1''])
   \<and> select_type [Line ''1''] = (Inr ''feat'', [])
   \<and> select_type [Line ''abc'', Line ''1''] \<noteq> select_type [Line ''1'']"
  by (simp add: py_int_examples keys_def COMMIT_TYPES_def)

section \<open>Properties of a whole run\<close>

subsection \<open>The quick commit\<close>

lemma main_quick_invalid:
  "\<not> args_status a \<Longrightarrow> \<not> args_types a \<Longrightarrow> args_quick a = Some (t, d) \<Longrightarrow>
   t \<notin> set (keys COMMIT_TYPES) \<Longrightarrow>
   main run a ins = \<lparr>raised = Some (SysExit 1), did = \<lparr>calls = [], built = []\<rparr>, unread = ins\<rparr>"
  by (simp add: main_def)

lemma quick_commit_eq:
  "quick_commit run t d s =
     (run [''git'', ''commit'', ''-m'', build_message (quick_fields t d s)] = Completed,
      \<lparr>calls = [ [''git'', ''commit'', ''-m'', build_message (quick_fields t d s)]],
       built = [quick_fields t d s]\<rparr>)"
  by (cases "run [''git'', ''commit'', ''-m'', build_message (quick_fields t d s)]")
     (simp_all add: quick_commit_def execute_commit_def Let_def)

lemma main_quick_valid:
  "\<not> args_status a \<Longrightarrow> \<not> args_types a \<Longrightarrow> args_quick a = Some (t, d) \<Longrightarrow>
   t \<in> set (keys COMMIT_TYPES) \<Longrightarrow>
   main run a ins =
     \<lparr>raised = Some (SysExit (if run [''git'', ''commit'', ''-m'',
                    build_message (quick_fields t d (args_scope a))] = Completed then 0 else 1)),
      did = \<lparr>calls = [ [''git'', ''commit'', ''-m'',
                    build_message (quick_fields t d (args_scope a))]],
             built = [quick_fields t d (args_scope a)]\<rparr>,
      unread = ins\<rparr>"
  by (simp add: main_def quick_commit_eq)

text \<open>
  C6, as amended. For a command line with \<open>-q TYPE DESC\<close> and neither \<open>--status\<close> nor
  \<open>--types\<close>: when TYPE is not a key of the table, the run passes nothing to
  \<open>subprocess.run\<close>, builds no message and exits with status 1; when TYPE is a key, the
  run reads no input, builds the message from TYPE, the scope and DESC, passes it to one
  \<open>git commit\<close> and exits with status 0 or 1 as that call succeeds or fails.
\<close>

theorem quick_commit_validation:
  assumes "\<not> args_status a" and "\<not> args_types a" and "args_quick a = Some (t, d)"
  shows "(t \<notin> set (keys COMMIT_TYPES) \<longrightarrow>
           main run a ins
           = \<lparr>raised = Some (SysExit 1), did = \<lparr>calls = [], built = []\<rparr>, unread = ins\<rparr>)
    \<and> (t \<in> set (keys COMMIT_TYPES) \<longrightarrow>
           main run a ins
           = \<lparr>raised = Some (SysExit (if run [''git'', ''commit'', ''-m'',
                    build_message (quick_fields t d (args_scope a))] = Completed then 0 else 1)),
              did = \<lparr>calls = [ [''git'', ''commit'', ''-m'',
                    build_message (quick_fields t d (args_scope a))]],
                     built = [quick_fields t d (args_scope a)]\<rparr>,
              unread = ins\<rparr>)"
  apply (rule conjI)
   apply (rule impI, erule main_quick_invalid[OF assms])
  apply (rule impI, erule main_quick_valid[OF assms])
  done

theorem quick_commit_validation_witness:
  "main (\<lambda>_. Completed)
     \<lparr>args_quick = Some (''feature'', ''Add login''), args_scope = None,
      args_status = False, args_types = False\<rparr> [Line ''1'']
   = \<lparr>raised = Some (SysExit 1), did = \<lparr>calls = [], built = []\<rparr>, unread = [Line ''1'']\<rparr>
   \<and> main (\<lambda>_. CalledProcessError)
     \<lparr>args_quick = Some (''fix'', ''Fix null pointer''), args_scope = Some ''auth'',
      args_status = False, args_types = False\<rparr> [Line ''1'']
   = \<lparr>raised = Some (SysExit 1),
      did = \<lparr>calls = [ [''git'', ''commit'', ''-m'', ''fix(auth): Fix null pointer'']],
             built = [\<lparr>type = ''fix'', scope = ''auth'', description = ''Fix null pointer'',
                        body = [], breaking = False\<rparr>]\<rparr>,
      unread = [Line ''1'']\<rparr>"
proof -
  let ?a = "\<lparr>args_quick = Some (''feature'', ''Add login''), args_scope = None,
      args_status = False, args_types = False\<rparr>"
  let ?b = "\<lparr>args_quick = Some (''fix'', ''Fix null pointer''), args_scope = Some ''auth'',
      args_status = False, args_types = False\<rparr>"
  have a: "\<not> args_status ?a" "\<not> args_types ?a"
    "args_quick ?a = Some (''feature'', ''Add login'')" by simp_all
  have b: "\<not> args_status ?b" "\<not> args_types ?b"
    "args_quick ?b = Some (''fix'', ''Fix null pointer'')" by simp_all
  have na: "''feature'' \<notin> set (keys COMMIT_TYPES)" and nb: "''fix'' \<in> set (keys COMMIT_TYPES)"
    by (simp_all add: keys_def COMMIT_TYPES_def)
  have q: "quick_fields ''fix'' ''Fix null pointer'' (Some ''auth'')
      = \<lparr>type = ''fix'', scope = ''auth'', description = ''Fix null pointer'',
         body = [], breaking = False\<rparr>"
    by (simp add: quick_fields_def init_def)
  have m: "build_message \<lparr>type = ''fix'', scope = ''auth'', description = ''Fix null pointer'',
         body = [], breaking = False\<rparr> = ''fix(auth): Fix null pointer''"
    by (simp add: build_message_def header_def)
  show ?thesis
    using quick_commit_validation[OF a, of "\<lambda>_. Completed" "[Line ''1'']", THEN conjunct1] na
      quick_commit_validation[OF b, of "\<lambda>_. CalledProcessError" "[Line ''1'']", THEN conjunct2] nb
    by (simp add: q m)
qed

text \<open>
  C6 as stated fails when \<open>--status\<close> stands beside \<open>-q\<close>: the flag is handled first,
  so with a TYPE outside the table the run still calls the external tool (for the status)
  and \<open>main\<close> returns, which is exit status 0.
\<close>

theorem quick_commit_validation_counterexample:
  "''bogus'' \<notin> set (keys COMMIT_TYPES)
   \<and> main (\<lambda>_. Completed)
       \<lparr>args_quick = Some (''bogus'', ''Add login''), args_scope = None,
        args_status = True, args_types = False\<rparr> []
     = \<lparr>raised = None,
        did = \<lparr>calls = [ [''git'', ''status'', ''--short'']], built = []\<rparr>, unread = []\<rparr>"
  by (simp add: main_def show_status_def keys_def COMMIT_TYPES_def)

lemma quick_fields_eq:
  "quick_fields t d s =
     \<lparr>type = t, scope = (case s of None \<Rightarrow> [] | Some x \<Rightarrow> x), description = d,
      body = [], breaking = False\<rparr>"
  by (cases s) (simp_all add: quick_fields_def init_def)

lemma quick_message:
  "build_message (quick_fields t d s)
   = t @ (case s of None \<Rightarrow> [] | Some x \<Rightarrow> if x = [] then [] else ''('' @ x @ '')'')
       @ '': '' @ d"
  by (cases s) (simp_all add: quick_fields_eq build_message_def header_def)

lemma main_quick_built:
  "args_quick a = Some (t, d) \<Longrightarrow>
     list_all (\<lambda>D. D = quick_fields t d (args_scope a)) (built (did (main run a ins)))"
  by (simp add: main_def quick_commit_eq)

lemma type_no_bang:
  "t \<in> set (keys COMMIT_TYPES) \<Longrightarrow> CHR ''!'' \<notin> set t"
  by (auto simp: keys_def COMMIT_TYPES_def)

lemma quick_message_is_header:
  "build_message (quick_fields t d s) = header (quick_fields t d s)"
  by (simp add: build_message_eq quick_fields_eq)

lemma quick_message_clean:
  assumes "t \<in> set (keys COMMIT_TYPES)"
    and "CHR ''\<newline>'' \<notin> set (scope (quick_fields t d s))"
    and "CHR ''!'' \<notin> set (scope (quick_fields t d s))"
    and "\<not> sublist ''BREAKING CHANGE'' (scope (quick_fields t d s))"
    and "CHR ''\<newline>'' \<notin> set d" and "CHR ''!'' \<notin> set d"
    and "\<not> sublist ''BREAKING CHANGE'' d"
  shows "CHR ''\<newline>'' \<notin> set (build_message (quick_fields t d s))
    \<and> CHR ''!'' \<notin> set (build_message (quick_fields t d s))
    \<and> \<not> sublist ''BREAKING CHANGE'' (build_message (quick_fields t d s))"
proof (intro conjI)
  let ?D = "quick_fields t d s"
  have f: "type ?D = t" "description ?D = d" "body ?D = []" "\<not> breaking ?D"
    by (simp_all add: quick_fields_eq)
  show "CHR ''\<newline>'' \<notin> set (build_message ?D)"
    unfolding quick_message_is_header
    using assms(1,2,5) f by (intro header_no_newline) simp_all
  show "CHR ''!'' \<notin> set (build_message ?D)"
    unfolding quick_message_is_header
    using type_no_bang[OF assms(1)] assms(3,6) f by (simp add: header_def Let_def)
  show "\<not> sublist ''BREAKING CHANGE'' (build_message ?D)"
    using assms(1,4,7) f by (intro no_mark_in_message) simp_all
qed

text \<open>
  C10, as amended. The object a quick commit fills has an empty body and the breaking flag
  not set, whatever the arguments; its message is the header alone, that is the type, the
  scope in parentheses when one is given and not empty, a colon, a space and the
  description, and \<open>build_message\<close> adds no mark \<open>!\<close>, no body paragraph and no
  breaking-change paragraph to it. This message is the one passed to \<open>git commit\<close>, and in
  a run with \<open>-q\<close> no other object is ever given to \<open>build_message\<close>. When the type is one
  of the table and neither the scope nor the description holds a line feed, the character
  \<open>!\<close> or the string \<open>BREAKING CHANGE\<close>, the message is one line in which neither \<open>!\<close> nor
  \<open>BREAKING CHANGE\<close> occurs.
\<close>

theorem quick_message_header_only:
  "\<not> breaking (quick_fields t d s) \<and> body (quick_fields t d s) = []
   \<and> build_message (quick_fields t d s)
     = t @ (case s of None \<Rightarrow> [] | Some x \<Rightarrow> if x = [] then [] else ''('' @ x @ '')'')
         @ '': '' @ d
   \<and> snd (quick_commit run t d s)
     = \<lparr>calls = [ [''git'', ''commit'', ''-m'', build_message (quick_fields t d s)]],
        built = [quick_fields t d s]\<rparr>
   \<and> (args_quick a = Some (t, d) \<longrightarrow>
        list_all (\<lambda>D. D = quick_fields t d (args_scope a)) (built (did (main run a ins))))
   \<and> (t \<in> set (keys COMMIT_TYPES)
        \<and> CHR ''\<newline>'' \<notin> set (scope (quick_fields t d s))
        \<and> CHR ''!'' \<notin> set (scope (quick_fields t d s))
        \<and> \<not> sublist ''BREAKING CHANGE'' (scope (quick_fields t d s))
        \<and> CHR ''\<newline>'' \<notin> set d \<and> CHR ''!'' \<notin> set d
        \<and> \<not> sublist ''BREAKING CHANGE'' d \<longrightarrow>
        CHR ''\<newline>'' \<notin> set (build_message (quick_fields t d s))
        \<and> CHR ''!'' \<notin> set (build_message (quick_fields t d s))
        \<and> \<not> sublist ''BREAKING CHANGE'' (build_message (quick_fields t d s)))"
  apply (rule conjI, simp add: quick_fields_eq)
  apply (rule conjI, simp add: quick_fields_eq)
  apply (rule conjI, rule quick_message)
  apply (rule conjI, simp add: quick_commit_eq)
  apply (rule conjI, rule impI, erule main_quick_built)
  apply (rule impI, elim conjE, rule quick_message_clean, assumption+)
  done

theorem quick_message_header_only_witness:
  "build_message (quick_fields ''fix'' ''Fix null pointer'' (Some ''auth''))
   = ''fix(auth): Fix null pointer''
   \<and> build_message (quick_fields ''feat'' ''Add user login'' None) = ''feat: Add user login''
   \<and> built (did (main (\<lambda>_. Completed)
        \<lparr>args_quick = Some (''fix'', ''Fix null pointer''), args_scope = Some ''auth'',
         args_status = False, args_types = False\<rparr> []))
     = [quick_fields ''fix'' ''Fix null pointer'' (Some ''auth'')]
   \<and> CHR ''!'' \<notin> set (build_message (quick_fields ''fix'' ''Fix null pointer'' (Some ''auth'')))
   \<and> \<not> sublist ''BREAKING CHANGE''
        (build_message (quick_fields ''fix'' ''Fix null pointer'' (Some ''auth'')))"
proof -
  let ?a = "\<lparr>args_quick = Some (''fix'', ''Fix null pointer''), args_scope = Some ''auth'',
         args_status = False, args_types = False\<rparr>"
  note t = quick_message_header_only
  have a: "build_message (quick_fields ''fix'' ''Fix null pointer'' (Some ''auth''))
      = ''fix(auth): Fix null pointer''"
    using t[where t = "''fix''" and d = "''Fix null pointer''" and s = "Some ''auth''",
        THEN conjunct2, THEN conjunct2, THEN conjunct1] by simp
  have b: "build_message (quick_fields ''feat'' ''Add user login'' None) = ''feat: Add user login''"
    using t[where t = "''feat''" and d = "''Add user login''" and s = None,
        THEN conjunct2, THEN conjunct2, THEN conjunct1] by simp
  have q: "args_quick ?a = Some (''fix'', ''Fix null pointer'')" by simp
  have l: "length (built (did (main (\<lambda>_. Completed) ?a []))) = 1"
    by (simp add: main_def quick_commit_eq keys_def COMMIT_TYPES_def)
  have "list_all (\<lambda>D. D = quick_fields ''fix'' ''Fix null pointer'' (args_scope ?a))
          (built (did (main (\<lambda>_. Completed) ?a [])))"
    using t[where a = ?a and t = "''fix''" and d = "''Fix null pointer''"
        and run = "\<lambda>_. Completed" and ins = "[]",
        THEN conjunct2, THEN conjunct2, THEN conjunct2, THEN conjunct2, THEN conjunct1] q
    by blast
  with l have c: "built (did (main (\<lambda>_. Completed) ?a []))
      = [quick_fields ''fix'' ''Fix null pointer'' (Some ''auth'')]"
    by (cases "built (did (main (\<lambda>_. Completed) ?a []))") simp_all
  have h: "''fix'' \<in> set (keys COMMIT_TYPES)
        \<and> CHR ''\<newline>'' \<notin> set (scope (quick_fields ''fix'' ''Fix null pointer'' (Some ''auth'')))
        \<and> CHR ''!'' \<notin> set (scope (quick_fields ''fix'' ''Fix null pointer'' (Some ''auth'')))
        \<and> \<not> sublist ''BREAKING CHANGE''
              (scope (quick_fields ''fix'' ''Fix null pointer'' (Some ''auth'')))
        \<and> CHR ''\<newline>'' \<notin> set ''Fix null pointer'' \<and> CHR ''!'' \<notin> set ''Fix null pointer''
        \<and> \<not> sublist ''BREAKING CHANGE'' ''Fix null pointer''"
    by (simp add: quick_fields_eq keys_def COMMIT_TYPES_def sublist_Cons_right)
  have e: "CHR ''\<newline>'' \<notin> set (build_message (quick_fields ''fix'' ''Fix null pointer'' (Some ''auth'')))
        \<and> CHR ''!'' \<notin> set (build_message (quick_fields ''fix'' ''Fix null pointer'' (Some ''auth'')))
        \<and> \<not> sublist ''BREAKING CHANGE''
              (build_message (quick_fields ''fix'' ''Fix null pointer'' (Some ''auth'')))"
    using t[where t = "''fix''" and d = "''Fix null pointer''" and s = "Some ''auth''",
        THEN conjunct2, THEN conjunct2, THEN conjunct2, THEN conjunct2, THEN conjunct2] h
    by (rule mp)
  from a b c e show ?thesis by (intro conjI) (elim conjE, assumption)+
qed

text \<open>
  C10 as stated fails for arguments that hold such text themselves. A description made of
  \<open>x\<close>, an empty line and the breaking-change paragraph gives the message of a draft with
  that paragraph as its body: it has more than the header line and ends with the
  paragraph, and this is what the run commits. A scope \<open>api)!: Fix f(\<close> gives the header of
  a breaking change with the mark \<open>!\<close>.
\<close>

theorem quick_message_header_only_counterexample:
  "build_message (quick_fields ''feat'' ''x\<newline>\<newline>BREAKING CHANGE: This commit introduces breaking changes.'' None)
     = build_message \<lparr>type = ''feat'', scope = [], description = ''x'',
          body = ''BREAKING CHANGE: This commit introduces breaking changes.'', breaking = False\<rparr>
   \<and> first_line (build_message (quick_fields ''feat'' ''x\<newline>\<newline>BREAKING CHANGE: This commit introduces breaking changes.'' None))
       = ''feat: x''
   \<and> suffix (''\<newline>\<newline>'' @ BREAKING_PARAGRAPH)
        (build_message (quick_fields ''feat'' ''x\<newline>\<newline>BREAKING CHANGE: This commit introduces breaking changes.'' None))
   \<and> calls (did (main (\<lambda>_. Completed)
        \<lparr>args_quick = Some (''feat'', ''x\<newline>\<newline>BREAKING CHANGE: This commit introduces breaking changes.''), args_scope = None,
         args_status = False, args_types = False\<rparr> []))
       = [ [''git'', ''commit'', ''-m'', ''feat: x\<newline>\<newline>BREAKING CHANGE: This commit introduces breaking changes.'']]
   \<and> build_message (quick_fields ''fix'' ''y'' (Some ''api)!: Fix f(''))
       = header \<lparr>type = ''fix'', scope = ''api'', description = ''Fix f(): y'',
          body = [], breaking = True\<rparr>
   \<and> CHR ''!'' \<in> set (build_message (quick_fields ''fix'' ''y'' (Some ''api)!: Fix f('')))"
proof -
  have m: "build_message (quick_fields ''feat'' ''x\<newline>\<newline>BREAKING CHANGE: This commit introduces breaking changes.'' None)
      = ''feat: x'' @ (''\<newline>\<newline>'' @ BREAKING_PARAGRAPH)"
    by (simp add: quick_message BREAKING_PARAGRAPH_def)
  have s: "suffix (''\<newline>\<newline>'' @ BREAKING_PARAGRAPH)
        (build_message (quick_fields ''feat'' ''x\<newline>\<newline>BREAKING CHANGE: This commit introduces breaking changes.'' None))"
    unfolding m by (rule suffix_appendI) (rule suffix_order.refl)
  have rest: "build_message (quick_fields ''feat'' ''x\<newline>\<newline>BREAKING CHANGE: This commit introduces breaking changes.'' None)
     = build_message \<lparr>type = ''feat'', scope = [], description = ''x'',
          body = ''BREAKING CHANGE: This commit introduces breaking changes.'', breaking = False\<rparr>
   \<and> first_line (build_message (quick_fields ''feat'' ''x\<newline>\<newline>BREAKING CHANGE: This commit introduces breaking changes.'' None))
       = ''feat: x''
   \<and> calls (did (main (\<lambda>_. Completed)
        \<lparr>args_quick = Some (''feat'', ''x\<newline>\<newline>BREAKING CHANGE: This commit introduces breaking changes.''), args_scope = None,
         args_status = False, args_types = False\<rparr> []))
       = [ [''git'', ''commit'', ''-m'', ''feat: x\<newline>\<newline>BREAKING CHANGE: This commit introduces breaking changes.'']]
   \<and> build_message (quick_fields ''fix'' ''y'' (Some ''api)!: Fix f(''))
       = header \<lparr>type = ''fix'', scope = ''api'', description = ''Fix f(): y'',
          body = [], breaking = True\<rparr>
   \<and> CHR ''!'' \<in> set (build_message (quick_fields ''fix'' ''y'' (Some ''api)!: Fix f('')))"
    by (simp add: quick_fields_eq main_def quick_commit_eq keys_def COMMIT_TYPES_def
          build_message_def header_def first_line_def)
  from rest s show ?thesis by (elim conjE, intro conjI)
qed

subsection \<open>The draft when the message is built\<close>

text \<open>
  In every run the type of the object given to \<open>build_message\<close> is a key of the table, and
  in the interactive mode its description is not empty.
\<close>

lemma select_type_in_table:
  assumes "select_type ins = (Inr t, rest)"
  shows "t \<in> set (keys COMMIT_TYPES)"
proof -
  from select_type_returns[OF assms] obtain pre e k where
    "ins = pre @ Line e # rest \<and> py_int (strip e) = Some k \<and> 1 \<le> k \<and> k \<le> 11
        \<and> t = keys COMMIT_TYPES ! nat (k - 1) \<and> t \<in> set (keys COMMIT_TYPES)
        \<and> list_all (\<lambda>i. \<exists>e' k'. i = Line e' \<and> py_int (strip e') = Some k'
                            \<and> (k' < 1 \<or> 11 < k')) pre"
    by (elim exE)
  then show ?thesis by (elim conjE)
qed

lemma get_description_nonempty:
  "get_description ins = (Inr d, rest) \<Longrightarrow> d \<noteq> []"
  by (drule get_description_returns) (erule conjunct1)

lemma interactive_fields_valid:
  assumes "interactive_fields ins = (Inr self, rest)"
  shows "type self \<in> set (keys COMMIT_TYPES) \<and> description self \<noteq> []"
proof -
  from assms obtain t r1 s r2 d r3 where
    st: "select_type ins = (Inr t, r1)" and "get_scope r1 = (Inr s, r2)"
    and gd: "get_description r2 = (Inr d, r3)" and f: "type self = t" "description self = d"
    by (auto simp: interactive_fields_def then_read_def init_def
             split: prod.splits sum.splits)
  from select_type_in_table[OF st] get_description_nonempty[OF gd] f
  show ?thesis by simp
qed

lemma main_built_type:
  "list_all (\<lambda>D. type D \<in> set (keys COMMIT_TYPES)) (built (did (main run a ins)))"
  by (auto simp: main_def quick_commit_eq quick_fields_eq interactive_commit_def Let_def
        dest: interactive_fields_valid split: option.splits prod.splits sum.splits)

lemma main_built_description_interactive:
  "args_quick a = None \<Longrightarrow>
     list_all (\<lambda>D. description D \<noteq> []) (built (did (main run a ins)))"
  by (auto simp: main_def interactive_commit_def Let_def
        dest: interactive_fields_valid split: option.splits prod.splits sum.splits)

text \<open>
  C7. The claim that the description is never empty when \<open>build_message\<close> is called does
  not hold for the quick commit, which checks the type only: with \<open>-q feat ""\<close> the
  message \<open>feat: \<close> is built from an object with an empty description and committed.
\<close>

theorem quick_empty_description:
  "main (\<lambda>_. Completed)
     \<lparr>args_quick = Some (''feat'', []), args_scope = None,
      args_status = False, args_types = False\<rparr> []
   = \<lparr>raised = Some (SysExit 0),
      did = \<lparr>calls = [ [''git'', ''commit'', ''-m'', ''feat: '']],
             built = [\<lparr>type = ''feat'', scope = [], description = [],
                        body = [], breaking = False\<rparr>]\<rparr>,
      unread = []\<rparr>"
  by (simp add: main_def quick_commit_eq quick_fields_eq keys_def COMMIT_TYPES_def
        build_message_def header_def)

end
